theory Spec2Isabelle
  imports Main
begin

unbundle bit_operations_syntax

section \<open>Errors\<close>

text \<open>
  The source signals every failure by logging a message and executing a bare \<open>raise\<close>.
  Each constructor below stands for one group of raise sites, named after the logical
  error kind of that site. \<open>TypeError\<close>, \<open>NameError\<close> and \<open>AttributeError\<close> are the
  exceptions Python itself raises when the source computes with \<open>None\<close>, reads the unbound
  variable \<open>name\<close> in \<open>alloc_region\<close> (or \<open>n\<close> in \<open>SoCIRQ.__init__\<close>), or reads
  \<open>self.n_csrs\<close> on a \<open>SoCIRQ\<close>.
\<close>

datatype error =
    ConfigurationError
  | OverlapError string string
  | OutOfSpaceError
  | DuplicateNameError
  | LocationInUseError
  | RangeError
  | RegionNotFoundError
  | AlignmentError
  | UnsupportedRegionError
  | MissingArgumentError
  | TypeError
  | NameError
  | AttributeError
  | KeyError
  | ValueError
  | ZeroDivisionError

section \<open>Dictionaries\<close>

text \<open>
  A Python \<open>dict\<close> keeps its keys in insertion order, and an assignment to a key that is
  already present replaces the value in place. \<open>check_region\<close> and \<open>alloc_region\<close> iterate
  in that order, so a dictionary is an association list.
\<close>

type_synonym ('k, 'v) dict = "('k \<times> 'v) list"

fun dict_set :: "('k, 'v) dict \<Rightarrow> 'k \<Rightarrow> 'v \<Rightarrow> ('k, 'v) dict" where
  "dict_set [] k v = [(k, v)]"
| "dict_set ((k', v') # d) k v =
     (if k' = k then (k, v) # d else (k', v') # dict_set d k v)"

definition dict_get :: "('k, 'v) dict \<Rightarrow> 'k \<Rightarrow> 'v option" where
  "dict_get d k = map_of d k"

definition keys :: "('k, 'v) dict \<Rightarrow> 'k list" where
  "keys d = map fst d"

definition values_d :: "('k, 'v) dict \<Rightarrow> 'v list" where
  "values_d d = map snd d"

section \<open>SoCRegion\<close>

text \<open>
  \<open>SoCRegion(origin=None, size=None, cached=True)\<close>. \<open>linker\<close> is true for an instance of
  the subclass \<open>SoCLinkerRegion\<close>, for which \<open>isinstance(r, SoCLinkerRegion)\<close> holds.
\<close>

record SoCRegion =
  origin :: "int option"
  size_r :: "int option"
  cached :: bool
  linker :: bool

text \<open>The values a caller may pass where a region is expected.\<close>

datatype pyobj = PyInt int | PyRegion SoCRegion | PyOther

text \<open>
  \<open>a >= b + c\<close> on attributes that may be \<open>None\<close>: Python raises \<open>TypeError\<close> when an
  operand is \<open>None\<close>.
\<close>

definition ge_end :: "int option \<Rightarrow> int option \<Rightarrow> int option \<Rightarrow> error + bool" where
  "ge_end a b c =
     (case b of None \<Rightarrow> Inl TypeError
      | Some b' \<Rightarrow>
        (case c of None \<Rightarrow> Inl TypeError
         | Some c' \<Rightarrow>
           (case a of None \<Rightarrow> Inl TypeError
            | Some a' \<Rightarrow> Inr (a' \<ge> b' + c'))))"

definition py_add :: "int option \<Rightarrow> int option \<Rightarrow> error + int" where
  "py_add a b =
     (case a of None \<Rightarrow> Inl TypeError
      | Some a' \<Rightarrow> (case b of None \<Rightarrow> Inl TypeError | Some b' \<Rightarrow> Inr (a' + b')))"

subsection \<open>decoder\<close>

text \<open>
  Modelled from the spec: \<open>log2_int\<close> and the address \<open>Signal\<close> come from the migen
  library, which is not under src/. The spec describes \<open>2**log2_int(size, False)\<close> as
  rounding \<open>size\<close> up to the next power of two and \<open>log2_int(size)\<close> as \<open>log2(size)\<close>;
  migen computes it as \<open>0\<close> for \<open>n = 0\<close> and as the bit length of \<open>n - 1\<close> otherwise, and with
  \<open>need_pow2\<close> (the default) it raises \<open>ValueError\<close> unless \<open>n\<close> is that power of two.
\<close>

fun bit_length_nat :: "nat \<Rightarrow> nat" where
  "bit_length_nat n = (if n = 0 then 0 else Suc (bit_length_nat (n div 2)))"

declare bit_length_nat.simps [simp del]

definition bit_length :: "int \<Rightarrow> nat" where
  "bit_length i = bit_length_nat (nat \<bar>i\<bar>)"

definition log2_int :: "int \<Rightarrow> bool \<Rightarrow> error + nat" where
  "log2_int n need_pow2 =
     (if n = 0 then Inr 0
      else
        (let r = bit_length (n - 1) in
         if need_pow2 \<and> 2 ^ r \<noteq> n then Inl ValueError else Inr r))"

text \<open>
  Modelled from the spec: the word address the returned predicate takes is a migen signal,
  a vector of \<open>nbits\<close> bits holding the unsigned value \<open>sig_value\<close>. The slice \<open>a[lo:-1]\<close>
  selects, as a Python slice does, the bits from index \<open>lo\<close> up to but not including the
  last one, index \<open>nbits - 1\<close>; its value is read as an unsigned number. The comparison
  \<open>==\<close> with an integer holds when the two numbers are equal.
\<close>

record Signal =
  nbits :: nat
  sig_value :: int

definition slice_to_last :: "Signal \<Rightarrow> nat \<Rightarrow> int" where
  "slice_to_last a lo = take_bit (nbits a - 1 - lo) (drop_bit lo (sig_value a))"

text \<open>
  \<open>decoder()\<close>: \<open>Inl\<close> when the method raises, otherwise the \<open>lambda\<close> it returns. The body
  of the \<open>lambda\<close> calls \<open>log2_int(size)\<close> on the size in words each time it is applied.
\<close>

definition decoder :: "SoCRegion \<Rightarrow> error + (Signal \<Rightarrow> error + bool)" where
  "decoder r =
     (case origin r of
        None \<Rightarrow> Inl TypeError
      | Some origin0 \<Rightarrow>
        (case size_r r of
           None \<Rightarrow> Inl TypeError
         | Some size0 \<Rightarrow>
           (let origin1 = origin0 AND NOT 0x80000000 in
            (case log2_int size0 False of
               Inl e \<Rightarrow> Inl e
             | Inr l \<Rightarrow>
               (let size1 = (2 :: int) ^ l in
                if origin1 AND (size1 - 1) \<noteq> 0 then Inl AlignmentError
                else
                  (let origin2 = drop_bit 2 origin1; size2 = drop_bit 2 size1 in
                   Inr (\<lambda>a.
                     (case log2_int size2 True of
                        Inl e \<Rightarrow> Inl e
                      | Inr k \<Rightarrow> Inr (slice_to_last a k = drop_bit k origin2)))))))))"

text \<open>The decoder of a region applied to a word address.\<close>

definition decode :: "SoCRegion \<Rightarrow> Signal \<Rightarrow> error + bool" where
  "decode r a = (case decoder r of Inl e \<Rightarrow> Inl e | Inr p \<Rightarrow> p a)"

section \<open>SoCBus\<close>

record 'h SoCBus =
  standard :: string
  bus_data_width :: int
  bus_address_width :: int
  masters :: "(string, 'h) dict"
  slaves :: "(string, 'h) dict"
  regions :: "(string, SoCRegion) dict"
  timeout :: int

subsection \<open>check_region\<close>

text \<open>
  The inner \<open>for n1 in list(regions.keys())[i+1:]\<close> loop of \<open>check_region\<close>, for a fixed
  \<open>(n0, r0)\<close>: the first \<open>n1\<close> whose region overlaps \<open>r0\<close>, if any.
\<close>

fun check_against ::
  "string \<Rightarrow> SoCRegion \<Rightarrow> (string, SoCRegion) dict \<Rightarrow> error + (string \<times> string) option"
where
  "check_against n0 r0 [] = Inr None"
| "check_against n0 r0 ((n1, r1) # rest) =
     (if linker r0 \<or> linker r1 then check_against n0 r0 rest
      else
        (case ge_end (origin r0) (origin r1) (size_r r1) of
           Inl e \<Rightarrow> Inl e
         | Inr True \<Rightarrow> check_against n0 r0 rest
         | Inr False \<Rightarrow>
           (case ge_end (origin r1) (origin r0) (size_r r0) of
              Inl e \<Rightarrow> Inl e
            | Inr True \<Rightarrow> check_against n0 r0 rest
            | Inr False \<Rightarrow> Inr (Some (n0, n1)))))"

text \<open>The outer \<open>while i < len(regions)\<close> loop: the first conflicting pair, or \<open>None\<close>.\<close>

fun check_region :: "(string, SoCRegion) dict \<Rightarrow> error + (string \<times> string) option" where
  "check_region [] = Inr None"
| "check_region ((n0, r0) # rest) =
     (case check_against n0 r0 rest of
        Inl e \<Rightarrow> Inl e
      | Inr (Some p) \<Rightarrow> Inr (Some p)
      | Inr None \<Rightarrow> check_region rest)"

subsection \<open>alloc_region\<close>

text \<open>
  The loop that builds \<open>uncached_regions\<close>. Its body assigns \<open>uncached_regions[name]\<close>, but
  the loop variables are \<open>_\<close> and \<open>region\<close>, and \<open>name\<close> is bound neither in the method nor
  in the module: the first region with \<open>cached == False\<close> raises \<open>NameError\<close>. When the
  loop finishes, the dictionary is still empty.
\<close>

fun uncached_regions :: "(string, SoCRegion) dict \<Rightarrow> error + (string, SoCRegion) dict" where
  "uncached_regions [] = Inr []"
| "uncached_regions ((n, region) # rest) =
     (if cached region = False then Inl NameError else uncached_regions rest)"

text \<open>
  The \<open>for _, allocated in self.regions.items()\<close> loop: the first registered region for
  which \<open>check_region({"0": allocated, "1": candidate})\<close> reports a conflict.
\<close>

fun first_overlap :: "(string, SoCRegion) dict \<Rightarrow> SoCRegion \<Rightarrow> error + SoCRegion option" where
  "first_overlap [] candidate = Inr None"
| "first_overlap ((n, allocated) # rest) candidate =
     (case check_region [(''0'', allocated), (''1'', candidate)] of
        Inl e \<Rightarrow> Inl e
      | Inr (Some p) \<Rightarrow> Inr (Some allocated)
      | Inr None \<Rightarrow> first_overlap rest candidate)"

definition candidate_region :: "int \<Rightarrow> int \<Rightarrow> bool \<Rightarrow> SoCRegion" where
  "candidate_region org sz c =
     \<lparr>origin = Some org, size_r = Some sz, cached = c, linker = False\<rparr>"

lemma first_overlap_advances:
  "first_overlap regs (candidate_region org sz c) = Inr (Some a) \<Longrightarrow>
   py_add (origin a) (size_r a) = Inr org' \<Longrightarrow> org < org'"
proof (induction regs)
  case Nil
  then show ?case by simp
next
  case (Cons p regs)
  obtain n r where p: "p = (n, r)" by (cases p)
  show ?case
    using Cons unfolding p
    by (auto simp: candidate_region_def ge_end_def py_add_def
             split: if_splits option.splits sum.splits bool.splits)
qed

text \<open>
  The \<open>while (origin + size) < (search_region.origin + search_region.size)\<close> loop for one
  search region whose end is \<open>limit\<close>. \<open>Inr None\<close> means the loop ended without a candidate.
\<close>

function alloc_loop ::
  "(string, SoCRegion) dict \<Rightarrow> int \<Rightarrow> bool \<Rightarrow> int \<Rightarrow> int \<Rightarrow> error + SoCRegion option"
where
  "alloc_loop regs sz c limit org =
     (if org + sz < limit then
        (case first_overlap regs (candidate_region org sz c) of
           Inl e \<Rightarrow> Inl e
         | Inr None \<Rightarrow> Inr (Some (candidate_region org sz c))
         | Inr (Some allocated) \<Rightarrow>
           (case py_add (origin allocated) (size_r allocated) of
              Inl e \<Rightarrow> Inl e
            | Inr org' \<Rightarrow> alloc_loop regs sz c limit org'))
      else Inr None)"
  by pat_completeness auto
termination
proof (relation "measure (\<lambda>(regs, sz, c, limit, org). nat (limit - sz - org))")
  show "wf (measure (\<lambda>(regs, sz, c, limit, org). nat (limit - sz - org)))"
    by simp
next
  fix regs :: "(string, SoCRegion) dict" and sz c limit org x2 x2a y
  assume "org + sz < limit"
    and "first_overlap regs (candidate_region org sz c) = Inr x2"
    and "x2 = Some x2a"
    and "py_add (origin x2a) (size_r x2a) = Inr y"
  then have "org < y" using first_overlap_advances by blast
  with \<open>org + sz < limit\<close>
  show "((regs, sz, c, limit, y), (regs, sz, c, limit, org))
        \<in> measure (\<lambda>(regs, sz, c, limit, org). nat (limit - sz - org))"
    by simp
qed

declare alloc_loop.simps [simp del]

text \<open>The \<open>for _, search_region in search_regions.items()\<close> loop.\<close>

fun search ::
  "(string, SoCRegion) dict \<Rightarrow> int \<Rightarrow> bool \<Rightarrow> (string, SoCRegion) dict \<Rightarrow> error + SoCRegion"
where
  "search regs sz c [] = Inl OutOfSpaceError"
| "search regs sz c ((n, search_region) # rest) =
     (case origin search_region of
        None \<Rightarrow> Inl TypeError
      | Some org \<Rightarrow>
        (case py_add (origin search_region) (size_r search_region) of
           Inl e \<Rightarrow> Inl e
         | Inr limit \<Rightarrow>
           (case alloc_loop regs sz c limit org of
              Inl e \<Rightarrow> Inl e
            | Inr (Some candidate) \<Rightarrow> Inr candidate
            | Inr None \<Rightarrow> search regs sz c rest)))"

text \<open>
  \<open>alloc_region(size, cached)\<close>. With \<open>size = None\<close> the first statement, which formats
  \<open>size\<close> as hexadecimal, raises \<open>TypeError\<close>. The method does not change the bus.
\<close>

definition alloc_region :: "'h SoCBus \<Rightarrow> int option \<Rightarrow> bool \<Rightarrow> error + SoCRegion" where
  "alloc_region bus sz_arg cached_arg =
     (case sz_arg of
        None \<Rightarrow> Inl TypeError
      | Some sz \<Rightarrow>
        (case uncached_regions (regions bus) of
           Inl e \<Rightarrow> Inl e
         | Inr uncached \<Rightarrow>
           search (regions bus) sz cached_arg
             (if cached_arg = False then uncached
              else [(''main'',
                     \<lparr>origin = Some 0,
                      size_r = Some (2 ^ nat (bus_address_width bus) - 1),
                      cached = True, linker = False\<rparr>)])))"

subsection \<open>add_region\<close>

text \<open>
  \<open>add_region(name, region)\<close>. The result is the outcome of the call together with the bus
  the call leaves behind: the source stores \<open>self.regions[name] = region\<close> before it runs
  \<open>check_region\<close>, and the \<open>raise\<close> that follows a conflict does not undo the store. For a
  \<open>SoCLinkerRegion\<close> the source only logs a message.
\<close>

definition add_region ::
  "string \<Rightarrow> pyobj \<Rightarrow> 'h SoCBus \<Rightarrow> (error + unit) \<times> 'h SoCBus"
where
  "add_region name obj bus =
     (case obj of
        PyRegion region \<Rightarrow>
          (if linker region then (Inr (), bus)
           else
             (case origin region of
                None \<Rightarrow>
                  (case alloc_region bus (size_r region) (cached region) of
                     Inl e \<Rightarrow> (Inl e, bus)
                   | Inr region' \<Rightarrow>
                       (Inr (), bus\<lparr>regions := dict_set (regions bus) name region'\<rparr>))
              | Some org \<Rightarrow>
                  (let bus' = bus\<lparr>regions := dict_set (regions bus) name region\<rparr> in
                   (case check_region (regions bus') of
                      Inl e \<Rightarrow> (Inl e, bus')
                    | Inr (Some (n0, n1)) \<Rightarrow> (Inl (OverlapError n0 n1), bus')
                    | Inr None \<Rightarrow> (Inr (), bus')))))
      | PyInt i \<Rightarrow> (Inl UnsupportedRegionError, bus)
      | PyOther \<Rightarrow> (Inl UnsupportedRegionError, bus))"

subsection \<open>add_master and add_slave\<close>

text \<open>\<open>"{:d}".format(n)\<close> for a length \<open>n\<close>.\<close>

fun format_d :: "nat \<Rightarrow> string" where
  "format_d n =
     (if n < 10 then [char_of (48 + n)]
      else format_d (n div 10) @ [char_of (48 + n mod 10)])"

definition add_master ::
  "string option \<Rightarrow> 'h \<Rightarrow> 'h SoCBus \<Rightarrow> (error + unit) \<times> 'h SoCBus"
where
  "add_master name_arg master bus =
     (let name = (case name_arg of
                    None \<Rightarrow> ''master'' @ format_d (length (masters bus))
                  | Some n \<Rightarrow> n) in
      if name \<in> set (keys (masters bus)) then (Inl DuplicateNameError, bus)
      else (Inr (), bus\<lparr>masters := dict_set (masters bus) name master\<rparr>))"

text \<open>
  The tail of \<open>add_slave\<close>, from \<open>if name in self.slaves.keys()\<close> on, run on the bus that
  the region lookup or \<open>add_region\<close> has left.
\<close>

definition register_slave ::
  "string \<Rightarrow> 'h \<Rightarrow> 'h SoCBus \<Rightarrow> (error + unit) \<times> 'h SoCBus"
where
  "register_slave name slave bus =
     (if name \<in> set (keys (slaves bus)) then (Inl DuplicateNameError, bus)
      else (Inr (), bus\<lparr>slaves := dict_set (slaves bus) name slave\<rparr>))"

definition add_slave ::
  "string option \<Rightarrow> 'h \<Rightarrow> pyobj option \<Rightarrow> 'h SoCBus \<Rightarrow> (error + unit) \<times> 'h SoCBus"
where
  "add_slave name_arg slave region_arg bus =
     (if name_arg = None \<and> region_arg = None then (Inl MissingArgumentError, bus)
      else
        (let name = (case name_arg of
                       None \<Rightarrow> ''slave'' @ format_d (length (slaves bus))
                     | Some n \<Rightarrow> n) in
         (case region_arg of
            None \<Rightarrow>
              (case dict_get (regions bus) name of
                 None \<Rightarrow> (Inl RegionNotFoundError, bus)
               | Some region \<Rightarrow> register_slave name slave bus)
          | Some obj \<Rightarrow>
              (case add_region name obj bus of
                 (Inl e, bus') \<Rightarrow> (Inl e, bus')
               | (Inr u, bus') \<Rightarrow> register_slave name slave bus'))))"

subsection \<open>Construction\<close>

text \<open>
  The \<open>for name, region in reserved_regions.items()\<close> loop of \<open>__init__\<close>: an integer is
  sugar for a region of 16 MiB at that origin. An exception leaves no bus behind.
\<close>

fun add_reserved_regions :: "(string, pyobj) dict \<Rightarrow> 'h SoCBus \<Rightarrow> error + 'h SoCBus" where
  "add_reserved_regions [] bus = Inr bus"
| "add_reserved_regions ((name, obj) # rest) bus =
     (let region = (case obj of
                      PyInt i \<Rightarrow>
                        PyRegion \<lparr>origin = Some i, size_r = Some 0x1000000,
                                  cached = True, linker = False\<rparr>
                    | PyRegion r \<Rightarrow> obj
                    | PyOther \<Rightarrow> obj) in
      (case add_region name region bus of
         (Inl e, bus') \<Rightarrow> Inl e
       | (Inr u, bus') \<Rightarrow> add_reserved_regions rest bus'))"

definition SoCBus_init ::
  "string \<Rightarrow> int \<Rightarrow> int \<Rightarrow> int \<Rightarrow> (string, pyobj) dict \<Rightarrow> error + 'h SoCBus"
where
  "SoCBus_init standard_arg data_width address_width timeout_arg reserved_regions =
     (if standard_arg \<notin> set [''wishbone''] then Inl ConfigurationError
      else if data_width \<notin> set [32, 64] then Inl ConfigurationError
      else if address_width \<notin> set [32] then Inl ConfigurationError
      else add_reserved_regions reserved_regions
             \<lparr>standard = standard_arg, bus_data_width = data_width,
              bus_address_width = address_width, masters = [], slaves = [],
              regions = [], timeout = timeout_arg\<rparr>)"

subsection \<open>Call sequences\<close>

text \<open>
  The calls a caller can make on a bus, and the run of a list of calls that stops, as the
  build does, at the first call that raises: \<open>None\<close> when some call failed.
\<close>

datatype 'h call =
    AddRegion string pyobj
  | AllocRegion "int option" bool
  | AddMaster "string option" 'h
  | AddSlave "string option" 'h "pyobj option"

fun do_call :: "'h call \<Rightarrow> 'h SoCBus \<Rightarrow> (error + unit) \<times> 'h SoCBus" where
  "do_call (AddRegion name obj) bus = add_region name obj bus"
| "do_call (AllocRegion sz c) bus =
     (case alloc_region bus sz c of Inl e \<Rightarrow> (Inl e, bus) | Inr r \<Rightarrow> (Inr (), bus))"
| "do_call (AddMaster name master) bus = add_master name master bus"
| "do_call (AddSlave name slave region) bus = add_slave name slave region bus"

fun run_calls :: "'h call list \<Rightarrow> 'h SoCBus \<Rightarrow> 'h SoCBus option" where
  "run_calls [] bus = Some bus"
| "run_calls (c # cs) bus =
     (case do_call c bus of
        (Inl e, bus') \<Rightarrow> None
      | (Inr u, bus') \<Rightarrow> run_calls cs bus')"

section \<open>SoCCSR\<close>

record SoCCSR =
  csr_data_width :: int
  csr_address_width :: int
  csr_alignment :: int
  csr_paging :: int
  csrs :: "(string, int) dict"
  n_csrs :: int

text \<open>
  \<open>alloc(name)\<close>: the first \<open>n\<close> of
  \<open>range(self.data_width//8*2**self.address_width//self.paging)\<close> that is not a value of
  \<open>self.csrs\<close>. Python's \<open>//\<close> and \<open>*\<close> associate to the left, and \<open>//\<close> on integers is
  floor division, as \<open>div\<close> is on \<open>int\<close>.
\<close>

definition SoCCSR_alloc :: "SoCCSR \<Rightarrow> string \<Rightarrow> error + int" where
  "SoCCSR_alloc csr name =
     (if csr_paging csr = 0 then Inl ZeroDivisionError
      else
        (case List.find (\<lambda>n. n \<notin> set (values_d (csrs csr)))
                [0 .. ((csr_data_width csr div 8) * 2 ^ nat (csr_address_width csr))
                        div csr_paging csr - 1] of
           None \<Rightarrow> Inl OutOfSpaceError
         | Some n \<Rightarrow> Inr n))"

text \<open>
  \<open>add(name, n=None, use_loc_if_exists=False)\<close>. The method has no \<open>return\<close> statement: a
  call that does not raise returns \<open>None\<close>, here \<open>()\<close>, and the location is to be read from
  \<open>self.csrs\<close>. In the reuse branch \<open>n = self.csrs[name]\<close> only feeds the log message.
\<close>

definition SoCCSR_add ::
  "string \<Rightarrow> int option \<Rightarrow> bool \<Rightarrow> SoCCSR \<Rightarrow> (error + unit) \<times> SoCCSR"
where
  "SoCCSR_add name n_arg use_loc_if_exists csr =
     (if \<not> (use_loc_if_exists \<and> name \<in> set (keys (csrs csr))) then
        (if name \<in> set (keys (csrs csr)) then (Inl DuplicateNameError, csr)
         else if (case n_arg of None \<Rightarrow> False | Some n \<Rightarrow> n \<in> set (values_d (csrs csr)))
         then (Inl LocationInUseError, csr)
         else
           (case n_arg of
              None \<Rightarrow>
                (case SoCCSR_alloc csr name of
                   Inl e \<Rightarrow> (Inl e, csr)
                 | Inr n \<Rightarrow> (Inr (), csr\<lparr>csrs := dict_set (csrs csr) name n\<rparr>))
            | Some n \<Rightarrow>
                (if n < 0 then (Inl RangeError, csr)
                 else if n > n_csrs csr then (Inl RangeError, csr)
                 else (Inr (), csr\<lparr>csrs := dict_set (csrs csr) name n\<rparr>))))
      else
        (case dict_get (csrs csr) name of
           None \<Rightarrow> (Inl KeyError, csr)
         | Some n \<Rightarrow> (Inr (), csr)))"

fun add_reserved_csrs :: "(string, int option) dict \<Rightarrow> SoCCSR \<Rightarrow> error + SoCCSR" where
  "add_reserved_csrs [] csr = Inr csr"
| "add_reserved_csrs ((name, n) # rest) csr =
     (case SoCCSR_add name n False csr of
        (Inl e, csr') \<Rightarrow> Inl e
      | (Inr l, csr') \<Rightarrow> add_reserved_csrs rest csr')"

text \<open>
  \<open>__init__\<close>. The capacity is stored as \<open>4*2**address_width//paging\<close>, a line the source
  marks \<open># FIXME\<close>.
\<close>

definition SoCCSR_init ::
  "int \<Rightarrow> int \<Rightarrow> int \<Rightarrow> int \<Rightarrow> (string, int option) dict \<Rightarrow> error + SoCCSR"
where
  "SoCCSR_init data_width address_width alignment paging reserved_csrs =
     (if data_width \<notin> set [8, 32] then Inl ConfigurationError
      else if address_width \<notin> set [14, 15] then Inl ConfigurationError
      else if alignment \<notin> set [32, 64] then Inl ConfigurationError
      else if paging \<notin> set [0x800] then Inl ConfigurationError
      else add_reserved_csrs reserved_csrs
             \<lparr>csr_data_width = data_width, csr_address_width = address_width,
              csr_alignment = alignment, csr_paging = paging, csrs = [],
              n_csrs = (4 * 2 ^ nat address_width) div paging\<rparr>)"

section \<open>SoCIRQ\<close>

record SoCIRQ =
  n_irqs :: int
  irqs :: "(string, int) dict"

definition SoCIRQ_alloc :: "SoCIRQ \<Rightarrow> string \<Rightarrow> error + int" where
  "SoCIRQ_alloc irq name =
     (case List.find (\<lambda>n. n \<notin> set (values_d (irqs irq))) [0 .. n_irqs irq - 1] of
        None \<Rightarrow> Inl OutOfSpaceError
      | Some n \<Rightarrow> Inr n)"

text \<open>
  \<open>add(name, n=None)\<close>. As in \<open>SoCCSR\<close> the method has no \<open>return\<close> statement and returns
  \<open>None\<close>, here \<open>()\<close>. The message of the \<open>n > self.n_irqs\<close> branch reads \<open>self.n_csrs\<close>, an
  attribute a \<open>SoCIRQ\<close> does not have, so that branch ends in \<open>AttributeError\<close>.
\<close>

definition SoCIRQ_add :: "string \<Rightarrow> int option \<Rightarrow> SoCIRQ \<Rightarrow> (error + unit) \<times> SoCIRQ" where
  "SoCIRQ_add name n_arg irq =
     (if name \<in> set (keys (irqs irq)) then (Inl DuplicateNameError, irq)
      else if (case n_arg of None \<Rightarrow> False | Some n \<Rightarrow> n \<in> set (values_d (irqs irq)))
      then (Inl LocationInUseError, irq)
      else
        (case n_arg of
           None \<Rightarrow>
             (case SoCIRQ_alloc irq name of
                Inl e \<Rightarrow> (Inl e, irq)
              | Inr n \<Rightarrow> (Inr (), irq\<lparr>irqs := dict_set (irqs irq) name n\<rparr>))
         | Some n \<Rightarrow>
             (if n < 0 then (Inl RangeError, irq)
              else if n > n_irqs irq then (Inl AttributeError, irq)
              else (Inr (), irq\<lparr>irqs := dict_set (irqs irq) name n\<rparr>))))"

fun add_reserved_irqs :: "(string, int option) dict \<Rightarrow> SoCIRQ \<Rightarrow> error + SoCIRQ" where
  "add_reserved_irqs [] irq = Inr irq"
| "add_reserved_irqs ((name, n) # rest) irq =
     (case SoCIRQ_add name n irq of
        (Inl e, irq') \<Rightarrow> Inl e
      | (Inr l, irq') \<Rightarrow> add_reserved_irqs rest irq')"

text \<open>
  \<open>__init__\<close>. The message of the \<open>n_irqs > 32\<close> branch formats \<open>n\<close>, which is not yet bound
  there, so the branch ends in \<open>NameError\<close> before its \<open>raise\<close>.
\<close>

definition SoCIRQ_init :: "int \<Rightarrow> (string, int option) dict \<Rightarrow> error + SoCIRQ" where
  "SoCIRQ_init n_irqs_arg reserved_irqs =
     (if n_irqs_arg > 32 then Inl NameError
      else add_reserved_irqs reserved_irqs \<lparr>n_irqs = n_irqs_arg, irqs = []\<rparr>)"

section \<open>The no-overlap invariant of the region table\<close>

text \<open>
  Two regions are separated when one starts at or after the end of the other:
  \<open>r0.origin >= r1.origin + r1.size or r1.origin >= r0.origin + r0.size\<close>, an inequality
  counting as true only when the attributes it reads are set.
\<close>

definition separated :: "SoCRegion \<Rightarrow> SoCRegion \<Rightarrow> bool" where
  "separated r0 r1 =
     (case origin r0 of None \<Rightarrow> False
      | Some o0 \<Rightarrow>
        (case origin r1 of None \<Rightarrow> False
         | Some o1 \<Rightarrow>
             (case size_r r1 of None \<Rightarrow> False | Some s1 \<Rightarrow> o0 \<ge> o1 + s1) \<or>
             (case size_r r0 of None \<Rightarrow> False | Some s0 \<Rightarrow> o1 \<ge> o0 + s0)))"

definition compatible :: "string \<times> SoCRegion \<Rightarrow> string \<times> SoCRegion \<Rightarrow> bool" where
  "compatible p q = (linker (snd p) \<or> linker (snd q) \<or> separated (snd p) (snd q))"

text \<open>The region table holds no two overlapping entries, linker regions apart.\<close>

definition no_overlap :: "(string, SoCRegion) dict \<Rightarrow> bool" where
  "no_overlap regs = sorted_wrt compatible regs"

lemma separated_sym: "separated r0 r1 \<Longrightarrow> separated r1 r0"
  by (auto simp: separated_def split: option.splits)

lemma compatible_sym: "compatible p q \<Longrightarrow> compatible q p"
  by (auto simp: compatible_def dest: separated_sym)

lemma check_against_None:
  "check_against n0 r0 rest = Inr None \<Longrightarrow> q \<in> set rest \<Longrightarrow> compatible (n0, r0) q"
proof (induction rest)
  case Nil
  then show ?case by simp
next
  case (Cons p rest)
  obtain n r where p: "p = (n, r)" by (cases p)
  show ?case
    using Cons unfolding p
    by (auto simp: compatible_def separated_def ge_end_def
             split: if_splits option.splits sum.splits bool.splits)
qed

lemma check_region_None:
  "check_region regs = Inr None \<Longrightarrow> sorted_wrt compatible regs"
proof (induction regs)
  case Nil
  then show ?case by simp
next
  case (Cons p regs)
  obtain n r where p: "p = (n, r)" by (cases p)
  show ?case
    using Cons unfolding p
    by (auto split: sum.splits option.splits dest: check_against_None)
qed

lemma first_overlap_None:
  "first_overlap regs cand = Inr None \<Longrightarrow> q \<in> set regs \<Longrightarrow> compatible q (n', cand)"
proof (induction regs)
  case Nil
  then show ?case by simp
next
  case (Cons p regs)
  obtain n r where p: "p = (n, r)" by (cases p)
  show ?case
    using Cons unfolding p
    by (auto simp: compatible_def separated_def ge_end_def
             split: if_splits option.splits sum.splits bool.splits)
qed

lemma alloc_loop_Some:
  "alloc_loop regs sz c limit org = Inr (Some cand) \<Longrightarrow> q \<in> set regs \<Longrightarrow>
   compatible q (n', cand)"
proof (induction regs sz c limit org rule: alloc_loop.induct)
  case (1 regs sz c limit org)
  note unf = "1.prems"(1) [unfolded alloc_loop.simps [of regs sz c limit org]]
  show ?case
    using unf "1.IH" "1.prems"(2) first_overlap_None [of regs _ q n']
    by (auto split: if_splits sum.splits option.splits)
qed

lemma search_Inr:
  "search regs sz c srs = Inr cand \<Longrightarrow> q \<in> set regs \<Longrightarrow> compatible q (n', cand)"
proof (induction srs)
  case Nil
  then show ?case by simp
next
  case (Cons p srs)
  obtain n r where p: "p = (n, r)" by (cases p)
  show ?case
    using Cons unfolding p
    by (auto split: option.splits sum.splits dest: alloc_loop_Some)
qed

lemma alloc_region_Inr:
  "alloc_region bus sz c = Inr cand \<Longrightarrow> q \<in> set (regions bus) \<Longrightarrow> compatible q (n', cand)"
  by (auto simp: alloc_region_def split: option.splits sum.splits dest: search_Inr)

lemma set_dict_set: "set (dict_set d k v) \<subseteq> insert (k, v) (set d)"
  by (induction d) (auto split: if_splits)

lemma sorted_wrt_dict_set:
  "sorted_wrt compatible d \<Longrightarrow> \<forall>q \<in> set d. compatible q (k, v) \<Longrightarrow>
   sorted_wrt compatible (dict_set d k v)"
proof (induction d)
  case Nil
  then show ?case by simp
next
  case (Cons p d)
  obtain n r where p: "p = (n, r)" by (cases p)
  have sub: "set (dict_set d k v) \<subseteq> insert (k, v) (set d)" by (rule set_dict_set)
  show ?case
    using Cons sub unfolding p
    by (auto dest: compatible_sym)
qed


lemma add_region_no_overlap:
  assumes "add_region name obj bus = (Inr u, bus')" and "no_overlap (regions bus)"
  shows "no_overlap (regions bus')"
proof (cases obj)
  case (PyRegion region)
  show ?thesis
  proof (cases "linker region")
    case True
    with assms PyRegion show ?thesis by (simp add: add_region_def)
  next
    case notl: False
    show ?thesis
    proof (cases "origin region")
      case None
      with assms(1) PyRegion notl obtain cand where
        cand: "alloc_region bus (size_r region) (cached region) = Inr cand"
        and bus': "bus' = bus\<lparr>regions := dict_set (regions bus) name cand\<rparr>"
        by (auto simp: add_region_def split: sum.splits)
      from cand have "\<forall>q \<in> set (regions bus). compatible q (name, cand)"
        using alloc_region_Inr by blast
      with assms(2) show ?thesis
        unfolding bus' no_overlap_def by (simp add: sorted_wrt_dict_set)
    next
      case (Some org)
      with assms(1) PyRegion notl
      have "check_region (dict_set (regions bus) name region) = Inr None"
        and "bus' = bus\<lparr>regions := dict_set (regions bus) name region\<rparr>"
        by (auto simp: add_region_def Let_def split: sum.splits option.splits)
      then show ?thesis
        unfolding no_overlap_def by (simp add: check_region_None)
    qed
  qed
next
  case (PyInt i)
  with assms show ?thesis by (simp add: add_region_def)
next
  case PyOther
  with assms show ?thesis by (simp add: add_region_def)
qed

lemma register_slave_regions:
  "register_slave name slave bus = (r, bus') \<Longrightarrow> regions bus' = regions bus"
  by (auto simp: register_slave_def split: if_splits)

lemma add_slave_no_overlap:
  assumes "add_slave name_arg slave region_arg bus = (Inr u, bus')"
    and "no_overlap (regions bus)"
  shows "no_overlap (regions bus')"
proof (cases region_arg)
  case None
  with assms show ?thesis
    by (auto simp: add_slave_def Let_def split: if_splits option.splits
             dest: register_slave_regions)
next
  case (Some obj)
  define name where
    "name = (case name_arg of None \<Rightarrow> ''slave'' @ format_d (length (slaves bus)) | Some n \<Rightarrow> n)"
  from assms(1) Some obtain u' bus1 where
    ar: "add_region name obj bus = (Inr u', bus1)"
    and rs: "register_slave name slave bus1 = (Inr u, bus')"
    by (auto simp: add_slave_def Let_def name_def split: sum.splits prod.splits)
  from ar assms(2) have "no_overlap (regions bus1)" by (rule add_region_no_overlap)
  with rs show ?thesis by (simp add: register_slave_regions)
qed

lemma add_master_regions:
  "add_master name_arg master bus = (r, bus') \<Longrightarrow> regions bus' = regions bus"
  by (auto simp: add_master_def Let_def split: if_splits)

lemma do_call_no_overlap:
  assumes "do_call c bus = (Inr u, bus')" and "no_overlap (regions bus)"
  shows "no_overlap (regions bus')"
proof (cases c)
  case (AddRegion name obj)
  with assms show ?thesis by (auto dest: add_region_no_overlap)
next
  case (AllocRegion sz cc)
  with assms show ?thesis by (auto split: sum.splits)
next
  case (AddMaster name master)
  with assms show ?thesis by (auto dest: add_master_regions)
next
  case (AddSlave name slave region)
  with assms show ?thesis by (auto dest: add_slave_no_overlap)
qed

lemma run_calls_no_overlap:
  "run_calls cs bus = Some bus' \<Longrightarrow> no_overlap (regions bus) \<Longrightarrow> no_overlap (regions bus')"
proof (induction cs arbitrary: bus)
  case Nil
  then show ?case by simp
next
  case (Cons c cs)
  then show ?case
    by (auto split: prod.splits sum.splits dest: do_call_no_overlap)
qed

lemma add_reserved_regions_no_overlap:
  "add_reserved_regions rs bus = Inr bus' \<Longrightarrow> no_overlap (regions bus) \<Longrightarrow>
   no_overlap (regions bus')"
proof (induction rs arbitrary: bus)
  case Nil
  then show ?case by simp
next
  case (Cons p rs)
  obtain n obj where p: "p = (n, obj)" by (cases p)
  show ?case
    using Cons unfolding p
    by (auto simp: Let_def split: prod.splits sum.splits dest: add_region_no_overlap)
qed

lemma SoCBus_init_no_overlap:
  "SoCBus_init st dw aw t rs = Inr (bus :: 'h SoCBus) \<Longrightarrow> no_overlap (regions bus)"
  by (auto simp: SoCBus_init_def no_overlap_def split: if_splits
           dest!: add_reserved_regions_no_overlap)

text \<open>The bus the test at the end of the source builds, before and after its three calls.\<close>

definition main_reserved_regions :: "(string, pyobj) dict" where
  "main_reserved_regions =
     [(''rom'', PyRegion \<lparr>origin = Some 0x100, size_r = Some 1024, cached = True, linker = False\<rparr>),
      (''ram'', PyRegion \<lparr>origin = None, size_r = Some 512, cached = True, linker = False\<rparr>)]"

definition main_calls :: "unit call list" where
  "main_calls =
     [AddMaster (Some ''cpu'') (),
      AddSlave (Some ''rom'') ()
        (Some (PyRegion \<lparr>origin = None, size_r = Some 1024, cached = True, linker = False\<rparr>)),
      AddSlave (Some ''ram'') ()
        (Some (PyRegion \<lparr>origin = None, size_r = Some 1024, cached = True, linker = False\<rparr>))]"

definition main_bus0 :: "unit SoCBus" where
  "main_bus0 =
     \<lparr>standard = ''wishbone'', bus_data_width = 32, bus_address_width = 32,
      masters = [], slaves = [],
      regions =
        [(''rom'', \<lparr>origin = Some 0x100, size_r = Some 1024, cached = True, linker = False\<rparr>),
         (''ram'', \<lparr>origin = Some 0x500, size_r = Some 512, cached = True, linker = False\<rparr>)],
      timeout = 1000000\<rparr>"

definition main_bus :: "unit SoCBus" where
  "main_bus =
     \<lparr>standard = ''wishbone'', bus_data_width = 32, bus_address_width = 32,
      masters = [(''cpu'', ())], slaves = [(''rom'', ()), (''ram'', ())],
      regions =
        [(''rom'', \<lparr>origin = Some 0x700, size_r = Some 1024, cached = True, linker = False\<rparr>),
         (''ram'', \<lparr>origin = Some 0, size_r = Some 1024, cached = True, linker = False\<rparr>)],
      timeout = 1000000\<rparr>"

text \<open>
  C1. No-overlap invariant: on a bus that \<open>SoCBus.__init__\<close> has built, after any sequence
  of successful \<open>add_region\<close>, \<open>alloc_region\<close>, \<open>add_master\<close> and \<open>add_slave\<close> calls, every
  two entries of the region table that are not linker regions satisfy
  \<open>r0.origin >= r1.origin + r1.size\<close> or \<open>r1.origin >= r0.origin + r0.size\<close>.
\<close>

theorem no_overlap_invariant:
  assumes "SoCBus_init st dw aw t rs = Inr (bus0 :: 'h SoCBus)"
    and "run_calls cs bus0 = Some bus"
    and "i < j" and "j < length (regions bus)"
    and "\<not> linker (snd (regions bus ! i))" and "\<not> linker (snd (regions bus ! j))"
  shows "separated (snd (regions bus ! i)) (snd (regions bus ! j))"
proof -
  from assms(1) have "no_overlap (regions bus0)" by (rule SoCBus_init_no_overlap)
  with assms(2) have "no_overlap (regions bus)" by (rule run_calls_no_overlap)
  then have "compatible (regions bus ! i) (regions bus ! j)"
    using assms(3,4) unfolding no_overlap_def by (simp add: sorted_wrt_iff_nth_less)
  with assms(5,6) show ?thesis by (simp add: compatible_def)
qed


text \<open>The invariant on the bus of the source's own test: \<open>rom\<close> at 0x700 and \<open>ram\<close> at 0.\<close>

theorem no_overlap_invariant_witness:
  "SoCBus_init ''wishbone'' 32 32 1000000 main_reserved_regions = Inr main_bus0 \<and>
   run_calls main_calls main_bus0 = Some main_bus \<and>
   separated \<lparr>origin = Some 0x700, size_r = Some 1024, cached = True, linker = False\<rparr>
             \<lparr>origin = Some 0, size_r = Some 1024, cached = True, linker = False\<rparr>"
proof -
  have init: "SoCBus_init ''wishbone'' 32 32 1000000 main_reserved_regions = Inr main_bus0"
    by code_simp
  have run: "run_calls main_calls main_bus0 = Some main_bus"
    by code_simp
  have "separated (snd (regions main_bus ! 0)) (snd (regions main_bus ! 1))"
    using no_overlap_invariant [OF init run, of 0 1] by (simp add: main_bus_def)
  then show ?thesis using init run by (simp add: main_bus_def)
qed

section \<open>Overlap errors of add_region\<close>

lemma dict_get_dict_set: "dict_get (dict_set d k v) k = Some v"
  by (induction d) (auto simp: dict_get_def)

lemma dict_get_in_keys: "dict_get d k = Some v \<Longrightarrow> k \<in> set (keys d)"
  by (auto simp: dict_get_def keys_def dest: map_of_SomeD intro: rev_image_eqI)

lemma keys_dict_set:
  "keys (dict_set d k v) = (if k \<in> set (keys d) then keys d else keys d @ [k])"
  by (induction d) (force simp: keys_def)+

lemma distinct_keys_dict_set: "distinct (keys d) \<Longrightarrow> distinct (keys (dict_set d k v))"
  by (simp add: keys_dict_set)

lemma dict_set_other: "(n, r) \<in> set d \<Longrightarrow> n \<noteq> k \<Longrightarrow> (n, r) \<in> set (dict_set d k v)"
  by (induction d) auto

lemma dict_set_new: "(k, v) \<in> set (dict_set d k v)"
  by (induction d) auto

lemma dict_get_distinct: "distinct (keys d) \<Longrightarrow> (n, r) \<in> set d \<Longrightarrow> dict_get d n = Some r"
  by (simp add: dict_get_def keys_def)

lemma check_against_Some:
  "check_against n0 r0 rest = Inr (Some p) \<Longrightarrow>
   \<exists>n1 r1. p = (n0, n1) \<and> (n1, r1) \<in> set rest \<and> \<not> compatible (n0, r0) (n1, r1)"
proof (induction rest)
  case Nil
  then show ?case by simp
next
  case (Cons q rest)
  obtain n r where q: "q = (n, r)" by (cases q)
  show ?case
    using Cons unfolding q
    by (fastforce simp: compatible_def separated_def ge_end_def
             split: if_splits option.splits sum.splits bool.splits)
qed

lemma check_region_Some:
  "check_region regs = Inr (Some (n0, n1)) \<Longrightarrow> distinct (keys regs) \<Longrightarrow>
   \<exists>r0 r1. (n0, r0) \<in> set regs \<and> (n1, r1) \<in> set regs \<and> n0 \<noteq> n1 \<and>
           \<not> compatible (n0, r0) (n1, r1)"
proof (induction regs)
  case Nil
  then show ?case by simp
next
  case (Cons q regs)
  obtain n r where q: "q = (n, r)" by (cases q)
  show ?case
  proof (cases "check_against n r regs")
    case (Inl e)
    with Cons.prems q show ?thesis by simp
  next
    case (Inr res)
    show ?thesis
    proof (cases res)
      case None
      with Inr Cons q show ?thesis by (fastforce simp: keys_def)
    next
      case (Some p)
      with Inr Cons.prems q have p: "p = (n0, n1)" by simp
      from check_against_Some [OF Inr [unfolded Some]] p
      obtain r1 where "n0 = n" "(n1, r1) \<in> set regs" "\<not> compatible (n, r) (n1, r1)"
        by auto
      moreover from this Cons.prems(2) q have "n \<noteq> n1"
        by (auto simp: keys_def intro: rev_image_eqI)
      ultimately show ?thesis using q by auto
    qed
  qed
qed

text \<open>Every entry of the table has its origin and its size set.\<close>

definition attributes_set :: "(string, SoCRegion) dict \<Rightarrow> bool" where
  "attributes_set regs = list_all (\<lambda>(n, r). origin r \<noteq> None \<and> size_r r \<noteq> None) regs"

lemma check_against_no_error:
  "attributes_set ((n0, r0) # rest) \<Longrightarrow> check_against n0 r0 rest \<noteq> Inl e"
proof (induction rest)
  case Nil
  then show ?case by simp
next
  case (Cons q rest)
  obtain n r where q: "q = (n, r)" by (cases q)
  show ?case
    using Cons unfolding q
    by (auto simp: attributes_set_def ge_end_def
             split: if_splits option.splits sum.splits bool.splits)
qed

lemma check_region_no_error:
  "attributes_set regs \<Longrightarrow> check_region regs \<noteq> Inl e"
proof (induction regs)
  case Nil
  then show ?case by simp
next
  case (Cons q regs)
  obtain n r where q: "q = (n, r)" by (cases q)
  have "check_against n r regs \<noteq> Inl e"
    using Cons.prems unfolding q by (rule check_against_no_error)
  moreover have "check_region regs \<noteq> Inl e"
    using Cons by (simp add: attributes_set_def)
  ultimately show ?case
    unfolding q by (auto split: sum.splits option.splits)
qed

lemma attributes_set_dict_set:
  "attributes_set d \<Longrightarrow> origin v \<noteq> None \<Longrightarrow> size_r v \<noteq> None \<Longrightarrow>
   attributes_set (dict_set d k v)"
  by (induction d) (auto simp: attributes_set_def)

lemma sorted_wrt_compatible_set:
  "sorted_wrt compatible regs \<Longrightarrow> p \<in> set regs \<Longrightarrow> q \<in> set regs \<Longrightarrow> p \<noteq> q \<Longrightarrow>
   compatible p q"
proof (induction regs)
  case Nil
  then show ?case by simp
next
  case (Cons x regs)
  then show ?case by (auto dest: compatible_sym)
qed

text \<open>A region that lies across the end of \<open>rom\<close> in the bus of the source's test.\<close>

definition overlapping_region :: SoCRegion where
  "overlapping_region = \<lparr>origin = Some 0x400, size_r = Some 0x200, cached = True, linker = False\<rparr>"

text \<open>
  C5 as stated fails: the failed \<open>add_region\<close> leaves the new region in the table. On the
  test's bus, whose \<open>rom\<close> is at 0x100 with size 1024, adding \<open>sram\<close> at 0x400 with size
  0x200 fails naming \<open>rom\<close> and \<open>sram\<close>, and the table then has \<open>sram\<close> as a third entry.
\<close>

theorem add_region_no_rollback_counterexample:
  "add_region ''sram'' (PyRegion overlapping_region) main_bus0 =
     (Inl (OverlapError ''rom'' ''sram''),
      main_bus0\<lparr>regions := regions main_bus0 @ [(''sram'', overlapping_region)]\<rparr>) \<and>
   regions (snd (add_region ''sram'' (PyRegion overlapping_region) main_bus0)) \<noteq>
     regions main_bus0"
proof -
  have "add_region ''sram'' (PyRegion overlapping_region) main_bus0 =
     (Inl (OverlapError ''rom'' ''sram''),
      main_bus0\<lparr>regions := regions main_bus0 @ [(''sram'', overlapping_region)]\<rparr>)"
    by code_simp
  then show ?thesis by simp
qed

text \<open>
  C5, amended. On a table that holds no overlap, with distinct names and all origins and
  sizes set, \<open>add_region\<close> of a region with origin and size set, not a linker region, that
  overlaps a registered region of another name which is not a linker region, fails with the
  overlap error. The error names two different entries of the table that overlap, one of
  them the new region. The call leaves the new region stored under its name: nothing is
  rolled back.
\<close>

theorem add_region_overlap_error:
  assumes inv: "no_overlap (regions bus)"
    and dist: "distinct (keys (regions bus))"
    and attrs: "attributes_set (regions bus)"
    and reg: "origin region = Some org" "size_r region = Some sz" "\<not> linker region"
    and ov: "(n', q) \<in> set (regions bus)" "n' \<noteq> name" "\<not> linker q" "\<not> separated q region"
  shows "\<exists>n0 n1 r0 r1.
     add_region name (PyRegion region) bus =
       (Inl (OverlapError n0 n1), bus\<lparr>regions := dict_set (regions bus) name region\<rparr>) \<and>
     n0 \<noteq> n1 \<and> (n0 = name \<or> n1 = name) \<and>
     dict_get (dict_set (regions bus) name region) n0 = Some r0 \<and>
     dict_get (dict_set (regions bus) name region) n1 = Some r1 \<and>
     \<not> linker r0 \<and> \<not> linker r1 \<and> \<not> separated r0 r1 \<and>
     dict_get (dict_set (regions bus) name region) name = Some region"
proof -
  define regs' where "regs' = dict_set (regions bus) name region"
  have dist': "distinct (keys regs')"
    unfolding regs'_def using dist by (rule distinct_keys_dict_set)
  have attrs': "attributes_set regs'"
    unfolding regs'_def using attrs reg by (simp add: attributes_set_dict_set)
  have new: "(name, region) \<in> set regs'"
    unfolding regs'_def by (rule dict_set_new)
  have old: "(n', q) \<in> set regs'"
    unfolding regs'_def using ov(1,2) by (rule dict_set_other)
  have bad: "\<not> compatible (n', q) (name, region)"
    using ov(3,4) reg(3) by (simp add: compatible_def)
  have "check_region regs' \<noteq> Inr None"
  proof
    assume "check_region regs' = Inr None"
    then have "sorted_wrt compatible regs'" by (rule check_region_None)
    from sorted_wrt_compatible_set [OF this old new] ov(2) bad show False by simp
  qed
  moreover have "\<And>e. check_region regs' \<noteq> Inl e"
    using attrs' by (rule check_region_no_error)
  ultimately obtain n0 n1 where res: "check_region regs' = Inr (Some (n0, n1))"
    by (cases "check_region regs'") auto
  from check_region_Some [OF res dist'] obtain r0 r1 where
    m0: "(n0, r0) \<in> set regs'" and m1: "(n1, r1) \<in> set regs'" and ne: "n0 \<noteq> n1"
    and inc: "\<not> compatible (n0, r0) (n1, r1)"
    by blast
  have named: "n0 = name \<or> n1 = name"
  proof (rule ccontr)
    assume "\<not> (n0 = name \<or> n1 = name)"
    then have "n0 \<noteq> name" "n1 \<noteq> name" by simp_all
    with m0 m1 have "(n0, r0) \<in> set (regions bus)" "(n1, r1) \<in> set (regions bus)"
      using set_dict_set [of "regions bus" name region] unfolding regs'_def by auto
    with inv ne have "compatible (n0, r0) (n1, r1)"
      unfolding no_overlap_def by (auto intro: sorted_wrt_compatible_set)
    with inc show False by simp
  qed
  have call: "add_region name (PyRegion region) bus =
      (Inl (OverlapError n0 n1), bus\<lparr>regions := regs'\<rparr>)"
    using reg res by (simp add: add_region_def regs'_def)
  have "dict_get regs' n0 = Some r0" "dict_get regs' n1 = Some r1"
    "dict_get regs' name = Some region"
    using dist' m0 m1 new by (simp_all add: dict_get_distinct)
  with call ne named inc show ?thesis
    unfolding regs'_def [symmetric] by (auto simp: compatible_def)
qed

theorem add_region_overlap_error_witness:
  "\<exists>n0 n1 r0 r1.
     add_region ''sram'' (PyRegion overlapping_region) main_bus0 =
       (Inl (OverlapError n0 n1),
        main_bus0\<lparr>regions := dict_set (regions main_bus0) ''sram'' overlapping_region\<rparr>) \<and>
     n0 \<noteq> n1 \<and> (n0 = ''sram'' \<or> n1 = ''sram'') \<and>
     dict_get (dict_set (regions main_bus0) ''sram'' overlapping_region) n0 = Some r0 \<and>
     dict_get (dict_set (regions main_bus0) ''sram'' overlapping_region) n1 = Some r1 \<and>
     \<not> linker r0 \<and> \<not> linker r1 \<and> \<not> separated r0 r1 \<and>
     dict_get (dict_set (regions main_bus0) ''sram'' overlapping_region) ''sram'' =
       Some overlapping_region"
proof (rule add_region_overlap_error)
  show "no_overlap (regions main_bus0)"
    by (simp add: main_bus0_def no_overlap_def compatible_def separated_def)
  show "distinct (keys (regions main_bus0))"
    by (simp add: main_bus0_def keys_def)
  show "attributes_set (regions main_bus0)"
    by (simp add: main_bus0_def attributes_set_def)
  show "origin overlapping_region = Some 0x400" "size_r overlapping_region = Some 0x200"
    "\<not> linker overlapping_region"
    by (simp_all add: overlapping_region_def)
  show "(''rom'', \<lparr>origin = Some 0x100, size_r = Some 1024, cached = True, linker = False\<rparr>)
          \<in> set (regions main_bus0)"
    by (simp add: main_bus0_def)
  show "''rom'' \<noteq> ''sram''" by simp
  show "\<not> linker \<lparr>origin = Some 0x100, size_r = Some 1024, cached = True, linker = False\<rparr>"
    by simp
  show "\<not> separated \<lparr>origin = Some 0x100, size_r = Some 1024, cached = True, linker = False\<rparr>
          overlapping_region"
    by (simp add: separated_def overlapping_region_def)
qed

section \<open>add_slave on a duplicate slave name\<close>

lemma add_region_slaves:
  "add_region name obj bus = (res, bus') \<Longrightarrow> slaves bus' = slaves bus"
  by (auto simp: add_region_def Let_def split: pyobj.splits if_splits option.splits sum.splits)

lemma add_region_stores:
  assumes "add_region name (PyRegion region) bus = (Inr u, bus')" and "\<not> linker region"
  shows "\<exists>r'. regions bus' = dict_set (regions bus) name r' \<and>
              (origin region \<noteq> None \<longrightarrow> r' = region)"
  using assms
  by (auto simp: add_region_def Let_def split: if_splits option.splits sum.splits)

text \<open>The request of the test's second and third \<open>add_slave\<close>, and a linker region.\<close>

definition rom_request :: SoCRegion where
  "rom_request = \<lparr>origin = None, size_r = Some 1024, cached = True, linker = False\<rparr>"

definition linker_region :: SoCRegion where
  "linker_region = \<lparr>origin = None, size_r = None, cached = True, linker = True\<rparr>"

definition linker_bus :: "unit SoCBus" where
  "linker_bus =
     \<lparr>standard = ''wishbone'', bus_data_width = 32, bus_address_width = 32,
      masters = [], slaves = [(''flash'', ())], regions = [], timeout = 1000000\<rparr>"

text \<open>
  C10 as stated fails for a \<open>SoCLinkerRegion\<close>: \<open>add_region\<close> only logs a message for it.
  On a fresh bus, \<open>add_slave("flash", slave, SoCLinkerRegion())\<close> succeeds and a second such
  call fails on the duplicate slave name with the region table still empty.
\<close>

theorem add_slave_linker_counterexample:
  "SoCBus_init ''wishbone'' 32 32 1000000 [] =
     Inr (linker_bus\<lparr>slaves := []\<rparr>) \<and>
   add_slave (Some ''flash'') () (Some (PyRegion linker_region)) (linker_bus\<lparr>slaves := []\<rparr>) =
     (Inr (), linker_bus) \<and>
   add_slave (Some ''flash'') () (Some (PyRegion linker_region)) linker_bus =
     (Inl DuplicateNameError, linker_bus) \<and>
   regions linker_bus = []"
  by code_simp

text \<open>
  The name \<open>add_slave\<close> works with: the argument, or \<open>slave<N>\<close> with \<open>N\<close> the number of
  registered slaves when the argument is \<open>None\<close>.
\<close>

definition slave_name :: "string option \<Rightarrow> 'h SoCBus \<Rightarrow> string" where
  "slave_name name_arg bus =
     (case name_arg of
        None \<Rightarrow> ''slave'' @ format_d (length (slaves bus))
      | Some n \<Rightarrow> n)"

text \<open>
  A bus whose only slave was added as \<open>slave1\<close>, with an allocated region of size 1024: the
  next slave added without a name is named \<open>slave1\<close> too.
\<close>

definition auto_bus :: "unit SoCBus" where
  "auto_bus =
     \<lparr>standard = ''wishbone'', bus_data_width = 32, bus_address_width = 32,
      masters = [], slaves = [(''slave1'', ())],
      regions =
        [(''slave1'', \<lparr>origin = Some 0, size_r = Some 1024, cached = True, linker = False\<rparr>)],
      timeout = 1000000\<rparr>"

text \<open>
  C10, amended. \<open>add_slave\<close> with an explicit region that is not a linker region, with or
  without a name, calls \<open>add_region\<close> before it looks at the slave name. When \<open>add_region\<close>
  succeeds and the slave name is taken, the call fails on the duplicate name, the slave
  registry is as before, and the region table already holds the new region under that
  name: appended, or in place of the entry the name had.
\<close>

theorem add_slave_duplicate_not_atomic:
  assumes "slave_name name_arg bus \<in> set (keys (slaves bus))"
    and "\<not> linker region"
    and "add_region (slave_name name_arg bus) (PyRegion region) bus = (Inr u, bus1)"
  shows "add_slave name_arg slave (Some (PyRegion region)) bus =
           (Inl DuplicateNameError, bus1) \<and>
         slaves bus1 = slaves bus \<and>
         (\<exists>r'. regions bus1 = dict_set (regions bus) (slave_name name_arg bus) r' \<and>
               dict_get (regions bus1) (slave_name name_arg bus) = Some r' \<and>
               (origin region \<noteq> None \<longrightarrow> r' = region))"
proof -
  have s: "slaves bus1 = slaves bus" using assms(3) by (rule add_region_slaves)
  from add_region_stores [OF assms(3,2)] obtain r' where
    r: "regions bus1 = dict_set (regions bus) (slave_name name_arg bus) r'"
      "origin region \<noteq> None \<longrightarrow> r' = region"
    by blast
  have "add_slave name_arg slave (Some (PyRegion region)) bus =
          (Inl DuplicateNameError, bus1)"
    using assms(1,3) s
    by (simp add: add_slave_def register_slave_def slave_name_def Let_def)
  with s r show ?thesis by (auto simp: dict_get_dict_set)
qed

text \<open>
  On the bus of the source's test, a second slave \<open>rom\<close>; and on the bus above, a slave
  without a name, which moves the region \<open>slave1\<close> from 0 to 0x400.
\<close>

theorem add_slave_duplicate_not_atomic_witness:
  "add_slave (Some ''rom'') () (Some (PyRegion rom_request)) main_bus =
     (Inl DuplicateNameError,
      main_bus\<lparr>regions :=
        [(''rom'', \<lparr>origin = Some 0xB00, size_r = Some 1024, cached = True, linker = False\<rparr>),
         (''ram'', \<lparr>origin = Some 0, size_r = Some 1024, cached = True, linker = False\<rparr>)]\<rparr>) \<and>
   slaves main_bus = [(''rom'', ()), (''ram'', ())] \<and>
   add_slave (Some ''slave1'') () (Some (PyRegion rom_request)) (linker_bus\<lparr>slaves := []\<rparr>) =
     (Inr (), auto_bus) \<and>
   slave_name None auto_bus = ''slave1'' \<and>
   add_slave None () (Some (PyRegion rom_request)) auto_bus =
     (Inl DuplicateNameError,
      auto_bus\<lparr>regions :=
        [(''slave1'',
          \<lparr>origin = Some 0x400, size_r = Some 1024, cached = True, linker = False\<rparr>)]\<rparr>)"
proof -
  have k: "slave_name (Some ''rom'') main_bus \<in> set (keys (slaves main_bus))"
    by (simp add: main_bus_def keys_def slave_name_def)
  have l: "\<not> linker rom_request" by (simp add: rom_request_def)
  have a: "add_region (slave_name (Some ''rom'') main_bus) (PyRegion rom_request) main_bus =
     (Inr (), main_bus\<lparr>regions :=
        [(''rom'', \<lparr>origin = Some 0xB00, size_r = Some 1024, cached = True, linker = False\<rparr>),
         (''ram'', \<lparr>origin = Some 0, size_r = Some 1024, cached = True, linker = False\<rparr>)]\<rparr>)"
    by code_simp
  have n: "slave_name None auto_bus = ''slave1''"
    by code_simp
  have k': "slave_name None auto_bus \<in> set (keys (slaves auto_bus))"
    unfolding n by (simp add: auto_bus_def keys_def)
  have a': "add_region (slave_name None auto_bus) (PyRegion rom_request) auto_bus =
     (Inr (), auto_bus\<lparr>regions :=
        [(''slave1'',
          \<lparr>origin = Some 0x400, size_r = Some 1024, cached = True, linker = False\<rparr>)]\<rparr>)"
    by code_simp
  have b: "add_slave (Some ''slave1'') () (Some (PyRegion rom_request))
        (linker_bus\<lparr>slaves := []\<rparr>) = (Inr (), auto_bus)"
    by code_simp
  show ?thesis
    using add_slave_duplicate_not_atomic [OF k l a, of "()"]
      add_slave_duplicate_not_atomic [OF k' l a', of "()"] n b
    by (simp add: main_bus_def)
qed

section \<open>The CSR allocator\<close>

text \<open>
  The allocator of the source's own test: \<open>SoCCSR(reserved_csrs={"ctrl": 0, "uart": 1})\<close>.
\<close>

definition scenario_b_csr :: SoCCSR where
  "scenario_b_csr =
     \<lparr>csr_data_width = 32, csr_address_width = 14, csr_alignment = 32, csr_paging = 0x800,
      csrs = [(''ctrl'', 0), (''uart'', 1)], n_csrs = 32\<rparr>"

lemma scenario_b_init:
  "SoCCSR_init 32 14 32 0x800 [(''ctrl'', Some 0), (''uart'', Some 1)] = Inr scenario_b_csr"
  by code_simp

text \<open>
  C7. An \<open>add\<close> with an explicit location \<open>n\<close> that no entry uses, under a name that no entry
  uses, fails with the range error exactly when \<open>n < 0\<close> or \<open>n > n_csrs\<close>; otherwise it
  registers \<open>name\<close> at \<open>n\<close>, so that \<open>n = n_csrs\<close> is accepted.
\<close>

theorem csr_add_explicit_location:
  assumes "name \<notin> set (keys (csrs csr))" and "n \<notin> set (values_d (csrs csr))"
  shows "SoCCSR_add name (Some n) reuse csr =
           (if n < 0 \<or> n > n_csrs csr then (Inl RangeError, csr)
            else (Inr (), csr\<lparr>csrs := dict_set (csrs csr) name n\<rparr>)) \<and>
         dict_get (dict_set (csrs csr) name n) name = Some n"
  using assms by (simp add: SoCCSR_add_def dict_get_dict_set)

text \<open>On the test's allocator, whose capacity is 32: location 32 is taken, 33 and -1 are not.\<close>

theorem csr_add_explicit_location_witness:
  "SoCCSR_init 32 14 32 0x800 [(''ctrl'', Some 0), (''uart'', Some 1)] = Inr scenario_b_csr \<and>
   SoCCSR_add ''csr2'' (Some 32) False scenario_b_csr =
     (Inr (), scenario_b_csr\<lparr>csrs := [(''ctrl'', 0), (''uart'', 1), (''csr2'', 32)]\<rparr>) \<and>
   SoCCSR_add ''csr2'' (Some 33) False scenario_b_csr = (Inl RangeError, scenario_b_csr) \<and>
   SoCCSR_add ''csr3'' (Some (- 1)) False scenario_b_csr = (Inl RangeError, scenario_b_csr)"
proof -
  have k: "''csr2'' \<notin> set (keys (csrs scenario_b_csr))" "''csr3'' \<notin> set (keys (csrs scenario_b_csr))"
    by (simp_all add: scenario_b_csr_def keys_def)
  have v: "32 \<notin> set (values_d (csrs scenario_b_csr))" "33 \<notin> set (values_d (csrs scenario_b_csr))"
    "- 1 \<notin> set (values_d (csrs scenario_b_csr))"
    by (simp_all add: scenario_b_csr_def values_d_def)
  show ?thesis
    using csr_add_explicit_location [OF k(1) v(1), of False]
      csr_add_explicit_location [OF k(1) v(2), of False]
      csr_add_explicit_location [OF k(2) v(3), of False]
      scenario_b_init
    by (simp add: scenario_b_csr_def)
qed

text \<open>
  C8 as stated fails: \<open>add\<close> returns no location. On the test's allocator, where \<open>uart\<close> is
  bound to location 1, \<open>add("uart", use_loc_if_exists=True)\<close> returns \<open>None\<close>.
\<close>

theorem csr_add_reuse_returns_none_counterexample:
  "dict_get (csrs scenario_b_csr) ''uart'' = Some 1 \<and>
   fst (SoCCSR_add ''uart'' None True scenario_b_csr) = Inr ()"
  by (simp add: SoCCSR_add_def scenario_b_csr_def dict_get_def keys_def)

text \<open>
  C8, amended. Idempotent reuse: where \<open>name\<close> is bound to a location, \<open>add(name, n, True)\<close>
  returns \<open>None\<close> and leaves the allocator as it was, and so does a second such call; after
  both, \<open>name\<close> is bound to the same location and the table has no further entry.
\<close>

theorem csr_add_reuse_idempotent:
  assumes "dict_get (csrs csr) name = Some l"
  shows "SoCCSR_add name n True csr = (Inr (), csr) \<and>
         SoCCSR_add name n' True (snd (SoCCSR_add name n True csr)) = (Inr (), csr) \<and>
         dict_get
           (csrs (snd (SoCCSR_add name n' True (snd (SoCCSR_add name n True csr))))) name =
           Some l"
  using assms dict_get_in_keys [OF assms] by (simp add: SoCCSR_add_def)

theorem csr_add_reuse_idempotent_witness:
  "dict_get (csrs scenario_b_csr) ''uart'' = Some 1 \<and>
   SoCCSR_add ''uart'' None True scenario_b_csr = (Inr (), scenario_b_csr) \<and>
   SoCCSR_add ''uart'' None True (snd (SoCCSR_add ''uart'' None True scenario_b_csr)) =
     (Inr (), scenario_b_csr)"
proof -
  have g: "dict_get (csrs scenario_b_csr) ''uart'' = Some 1"
    by (simp add: scenario_b_csr_def dict_get_def)
  show ?thesis
    using g csr_add_reuse_idempotent [OF g, of None None] by simp
qed

section \<open>The IRQ allocator\<close>

text \<open>
  The first-fit search over \<open>range(n)\<close>: \<open>List.find\<close> on \<open>[a .. b]\<close> returns the least element
  that satisfies the test, and nothing when no element does.
\<close>

lemma find_upto_least:
  "a \<le> l \<Longrightarrow> l \<le> b \<Longrightarrow> P l \<Longrightarrow> \<forall>l'. a \<le> l' \<and> l' < l \<longrightarrow> \<not> P l' \<Longrightarrow>
   List.find P [a .. b] = Some l"
proof (induction "nat (l - a)" arbitrary: a)
  case 0
  then have "a = l" by simp
  with 0 show ?case by (simp add: upto_rec1)
next
  case (Suc k)
  then have lt: "a < l" by simp
  with Suc.prems have na: "\<not> P a" by simp
  have "List.find P [a + 1 .. b] = Some l"
  proof (rule Suc.hyps(1))
    show "k = nat (l - (a + 1))" using Suc.hyps(2) by simp
    show "a + 1 \<le> l" using lt by simp
    show "l \<le> b" by (rule Suc.prems(2))
    show "P l" by (rule Suc.prems(3))
    show "\<forall>l'. a + 1 \<le> l' \<and> l' < l \<longrightarrow> \<not> P l'" using Suc.prems(4) by simp
  qed
  moreover have "[a .. b] = a # [a + 1 .. b]"
    using lt Suc.prems(2) by (simp add: upto_rec1)
  ultimately show ?case using na by simp
qed

lemma find_upto_none:
  "\<forall>l. a \<le> l \<and> l \<le> b \<longrightarrow> \<not> P l \<Longrightarrow> List.find P [a .. b] = None"
  by (simp add: find_None_iff)

lemma SoCIRQ_alloc_lowest_free:
  assumes "0 \<le> l" and "l < n_irqs irq" and "l \<notin> set (values_d (irqs irq))"
    and "\<forall>l'. 0 \<le> l' \<and> l' < l \<longrightarrow> l' \<in> set (values_d (irqs irq))"
  shows "SoCIRQ_alloc irq name = Inr l"
proof -
  have "List.find (\<lambda>n. n \<notin> set (values_d (irqs irq))) [0 .. n_irqs irq - 1] = Some l"
    using assms by (intro find_upto_least) simp_all
  then show ?thesis by (simp add: SoCIRQ_alloc_def)
qed

lemma SoCIRQ_alloc_full:
  assumes "\<forall>l. 0 \<le> l \<and> l < n_irqs irq \<longrightarrow> l \<in> set (values_d (irqs irq))"
  shows "SoCIRQ_alloc irq name = Inl OutOfSpaceError"
proof -
  have "List.find (\<lambda>n. n \<notin> set (values_d (irqs irq))) [0 .. n_irqs irq - 1] = None"
    using assms by (intro find_upto_none) simp
  then show ?thesis by (simp add: SoCIRQ_alloc_def)
qed

text \<open>
  C9. On an IRQ allocator with \<open>1 \<le> n_irqs \<le> 32\<close> built with the reserved entry
  \<open>uart: 1\<close>, \<open>add("timer")\<close> takes line 0, and a second \<open>add("timer")\<close> fails on the
  duplicate name and leaves the table as it was. Line 0 is taken as the lowest free line: on
  every allocator, \<open>add\<close> of a new name without a line binds the name to the line \<open>l\<close> of
  \<open>[0, n_irqs)\<close> that is free while every line below it is taken, and \<open>add\<close> of a name that
  is already bound fails on the duplicate name and changes nothing.
\<close>

theorem irq_scenario_c:
  assumes "1 \<le> n" and "n \<le> 32"
  shows "SoCIRQ_init n [(''uart'', Some 1)] = Inr \<lparr>n_irqs = n, irqs = [(''uart'', 1)]\<rparr> \<and>
         SoCIRQ_add ''timer'' None \<lparr>n_irqs = n, irqs = [(''uart'', 1)]\<rparr> =
           (Inr (), \<lparr>n_irqs = n, irqs = [(''uart'', 1), (''timer'', 0)]\<rparr>) \<and>
         SoCIRQ_add ''timer'' None \<lparr>n_irqs = n, irqs = [(''uart'', 1), (''timer'', 0)]\<rparr> =
           (Inl DuplicateNameError, \<lparr>n_irqs = n, irqs = [(''uart'', 1), (''timer'', 0)]\<rparr>) \<and>
         (\<forall>irq name l.
            name \<notin> set (keys (irqs irq)) \<and> 0 \<le> l \<and> l < n_irqs irq \<and>
            l \<notin> set (values_d (irqs irq)) \<and>
            (\<forall>l'. 0 \<le> l' \<and> l' < l \<longrightarrow> l' \<in> set (values_d (irqs irq))) \<longrightarrow>
            SoCIRQ_add name None irq =
              (Inr (), irq\<lparr>irqs := dict_set (irqs irq) name l\<rparr>)) \<and>
         (\<forall>irq name line.
            name \<in> set (keys (irqs irq)) \<longrightarrow>
            SoCIRQ_add name line irq = (Inl DuplicateNameError, irq))"
proof -
  from assms have up: "[0 .. n - 1] = 0 # [1 .. n - 1]"
    by (simp add: upto_rec1)
  have scenario:
    "SoCIRQ_init n [(''uart'', Some 1)] = Inr \<lparr>n_irqs = n, irqs = [(''uart'', 1)]\<rparr> \<and>
     SoCIRQ_add ''timer'' None \<lparr>n_irqs = n, irqs = [(''uart'', 1)]\<rparr> =
       (Inr (), \<lparr>n_irqs = n, irqs = [(''uart'', 1), (''timer'', 0)]\<rparr>) \<and>
     SoCIRQ_add ''timer'' None \<lparr>n_irqs = n, irqs = [(''uart'', 1), (''timer'', 0)]\<rparr> =
       (Inl DuplicateNameError, \<lparr>n_irqs = n, irqs = [(''uart'', 1), (''timer'', 0)]\<rparr>)"
    using assms
    by (simp add: SoCIRQ_init_def SoCIRQ_add_def SoCIRQ_alloc_def keys_def values_d_def up)
  have lowest: "SoCIRQ_add name None irq = (Inr (), irq\<lparr>irqs := dict_set (irqs irq) name l\<rparr>)"
    if "name \<notin> set (keys (irqs irq))" "0 \<le> l" "l < n_irqs irq"
      "l \<notin> set (values_d (irqs irq))"
      "\<forall>l'. 0 \<le> l' \<and> l' < l \<longrightarrow> l' \<in> set (values_d (irqs irq))"
    for irq name l
    using that(1) SoCIRQ_alloc_lowest_free [OF that(2-5), of name]
    by (simp add: SoCIRQ_add_def)
  have dup: "SoCIRQ_add name line irq = (Inl DuplicateNameError, irq)"
    if "name \<in> set (keys (irqs irq))" for irq name line
    using that by (simp add: SoCIRQ_add_def)
  from scenario lowest dup show ?thesis by blast
qed

text \<open>
  With the default \<open>n_irqs = 32\<close>; after \<open>uart\<close> at 1 and \<open>timer\<close> at 0, a third name gets
  line 2.
\<close>

theorem irq_scenario_c_witness:
  "(1 :: int) \<le> 32 \<and>
   SoCIRQ_init 32 [(''uart'', Some 1)] = Inr \<lparr>n_irqs = 32, irqs = [(''uart'', 1)]\<rparr> \<and>
   SoCIRQ_add ''timer'' None \<lparr>n_irqs = 32, irqs = [(''uart'', 1)]\<rparr> =
     (Inr (), \<lparr>n_irqs = 32, irqs = [(''uart'', 1), (''timer'', 0)]\<rparr>) \<and>
   SoCIRQ_add ''timer'' None \<lparr>n_irqs = 32, irqs = [(''uart'', 1), (''timer'', 0)]\<rparr> =
     (Inl DuplicateNameError, \<lparr>n_irqs = 32, irqs = [(''uart'', 1), (''timer'', 0)]\<rparr>) \<and>
   SoCIRQ_add ''gpio'' None \<lparr>n_irqs = 32, irqs = [(''uart'', 1), (''timer'', 0)]\<rparr> =
     (Inr (), \<lparr>n_irqs = 32, irqs = [(''uart'', 1), (''timer'', 0), (''gpio'', 2)]\<rparr>)"
proof -
  define irq where "irq = \<lparr>n_irqs = 32, irqs = [(''uart'', 1), (''timer'', 0)]\<rparr>"
  have below: "\<forall>l'. 0 \<le> l' \<and> l' < 2 \<longrightarrow> l' \<in> set (values_d (irqs irq))"
  proof (intro allI impI)
    fix l' :: int
    assume "0 \<le> l' \<and> l' < 2"
    then have "l' = 0 \<or> l' = 1" by arith
    then show "l' \<in> set (values_d (irqs irq))" by (auto simp: irq_def values_d_def)
  qed
  have pre: "''gpio'' \<notin> set (keys (irqs irq)) \<and> (0 :: int) \<le> 2 \<and> 2 < n_irqs irq \<and>
      2 \<notin> set (values_d (irqs irq)) \<and>
      (\<forall>l'. 0 \<le> l' \<and> l' < 2 \<longrightarrow> l' \<in> set (values_d (irqs irq)))"
    using below by (simp add: irq_def keys_def values_d_def)
  from irq_scenario_c [of 32] have all: "\<forall>irq name l.
            name \<notin> set (keys (irqs irq)) \<and> 0 \<le> l \<and> l < n_irqs irq \<and>
            l \<notin> set (values_d (irqs irq)) \<and>
            (\<forall>l'. 0 \<le> l' \<and> l' < l \<longrightarrow> l' \<in> set (values_d (irqs irq))) \<longrightarrow>
            SoCIRQ_add name None irq =
              (Inr (), irq\<lparr>irqs := dict_set (irqs irq) name l\<rparr>)"
    by simp
  have "SoCIRQ_add ''gpio'' None irq = (Inr (), irq\<lparr>irqs := dict_set (irqs irq) ''gpio'' 2\<rparr>)"
    using all pre by blast
  then show ?thesis
    using irq_scenario_c [of 32] by (simp add: irq_def)
qed

section \<open>Uncached allocation\<close>

text \<open>
  When the loop that collects the uncached regions finishes, it has collected nothing, so
  no call of \<open>alloc_region\<close> with \<open>cached = False\<close> returns a region.
\<close>

lemma uncached_regions_empty: "uncached_regions regs = Inr u \<Longrightarrow> u = []"
  by (induction regs) (auto split: if_splits)

lemma alloc_region_uncached_never_returns: "alloc_region bus sz False \<noteq> Inr r"
  by (auto simp: alloc_region_def split: option.splits sum.splits dest: uncached_regions_empty)

text \<open>A bus with one reserved uncached region, \<open>io\<close> at 0x10000 with size 0x10000.\<close>

definition io_region :: SoCRegion where
  "io_region = \<lparr>origin = Some 0x10000, size_r = Some 0x10000, cached = False, linker = False\<rparr>"

definition io_bus :: "unit SoCBus" where
  "io_bus =
     \<lparr>standard = ''wishbone'', bus_data_width = 32, bus_address_width = 32,
      masters = [], slaves = [], regions = [(''io'', io_region)], timeout = 1000000\<rparr>"

text \<open>
  C2. The claim has an uncached request searched inside the registered uncached regions.
  On the bus above, \<open>alloc_region(0x100, cached=False)\<close> ends in \<open>NameError\<close> at
  \<open>uncached_regions[name] = region\<close> instead.
\<close>

theorem alloc_region_uncached_name_error:
  "SoCBus_init ''wishbone'' 32 32 1000000 [(''io'', PyRegion io_region)] = Inr io_bus \<and>
   alloc_region io_bus (Some 0x100) False = Inl NameError"
  by code_simp

section \<open>Capacity of the CSR allocator\<close>

text \<open>
  An allocator of data width 8 whose eight reserved CSRs are allocated by the search, and
  an allocator of data width 32 with 32 reserved CSRs at the locations 1 to 32.
\<close>

definition csr8_reserved :: "(string, int option) dict" where
  "csr8_reserved =
     [(''c0'', None), (''c1'', None), (''c2'', None), (''c3'', None), (''c4'', None),
      (''c5'', None), (''c6'', None), (''c7'', None)]"

definition csr8 :: SoCCSR where
  "csr8 =
     \<lparr>csr_data_width = 8, csr_address_width = 14, csr_alignment = 32, csr_paging = 0x800,
      csrs =
        [(''c0'', 0), (''c1'', 1), (''c2'', 2), (''c3'', 3), (''c4'', 4), (''c5'', 5),
         (''c6'', 6), (''c7'', 7)],
      n_csrs = 32\<rparr>"

definition csr_full_reserved :: "(string, int option) dict" where
  "csr_full_reserved =
     [(''c1'', Some 1), (''c2'', Some 2), (''c3'', Some 3), (''c4'', Some 4),
      (''c5'', Some 5), (''c6'', Some 6), (''c7'', Some 7), (''c8'', Some 8),
      (''c9'', Some 9), (''c10'', Some 10), (''c11'', Some 11), (''c12'', Some 12),
      (''c13'', Some 13), (''c14'', Some 14), (''c15'', Some 15), (''c16'', Some 16),
      (''c17'', Some 17), (''c18'', Some 18), (''c19'', Some 19), (''c20'', Some 20),
      (''c21'', Some 21), (''c22'', Some 22), (''c23'', Some 23), (''c24'', Some 24),
      (''c25'', Some 25), (''c26'', Some 26), (''c27'', Some 27), (''c28'', Some 28),
      (''c29'', Some 29), (''c30'', Some 30), (''c31'', Some 31), (''c32'', Some 32)]"

definition csr_full :: SoCCSR where
  "csr_full =
     \<lparr>csr_data_width = 32, csr_address_width = 14, csr_alignment = 32, csr_paging = 0x800,
      csrs =
        [(''c1'', 1), (''c2'', 2), (''c3'', 3), (''c4'', 4), (''c5'', 5), (''c6'', 6),
         (''c7'', 7), (''c8'', 8), (''c9'', 9), (''c10'', 10), (''c11'', 11),
         (''c12'', 12), (''c13'', 13), (''c14'', 14), (''c15'', 15), (''c16'', 16),
         (''c17'', 17), (''c18'', 18), (''c19'', 19), (''c20'', 20), (''c21'', 21),
         (''c22'', 22), (''c23'', 23), (''c24'', 24), (''c25'', 25), (''c26'', 26),
         (''c27'', 27), (''c28'', 28), (''c29'', 29), (''c30'', 30), (''c31'', 31),
         (''c32'', 32)],
      n_csrs = 32\<rparr>"

text \<open>
  C3. With \<open>data_width = 8\<close> the stored capacity is 32 while
  \<open>data_width//8*2**address_width//paging\<close>, the bound of the search, is 8: once the
  locations 0 to 7 are taken, an \<open>add\<close> without location finds nothing free.
\<close>

theorem csr_capacity_data_width_8:
  "SoCCSR_init 8 14 32 0x800 csr8_reserved = Inr csr8 \<and>
   n_csrs csr8 = 32 \<and>
   ((csr_data_width csr8 div 8) * 2 ^ nat (csr_address_width csr8)) div csr_paging csr8 = 8 \<and>
   SoCCSR_add ''c8'' None False csr8 = (Inl OutOfSpaceError, csr8)"
  by code_simp

text \<open>
  C6. A table of \<open>n_csrs = 32\<close> entries at the locations 1 to 32, the last of them accepted
  by the \<open>n > self.n_csrs\<close> test: a further \<open>add\<close> without location succeeds at location 0.
\<close>

theorem csr_add_at_capacity:
  "SoCCSR_init 32 14 32 0x800 csr_full_reserved = Inr csr_full \<and>
   int (length (csrs csr_full)) = n_csrs csr_full \<and>
   SoCCSR_add ''c33'' None False csr_full =
     (Inr (), csr_full\<lparr>csrs := csrs csr_full @ [(''c33'', 0)]\<rparr>)"
  by code_simp

section \<open>The address decoder\<close>

lemma bit_length_nat_upper: "n < 2 ^ bit_length_nat n"
proof (induction n rule: bit_length_nat.induct)
  case (1 n)
  show ?case
  proof (cases "n = 0")
    case True
    then show ?thesis by (simp add: bit_length_nat.simps)
  next
    case False
    with 1 have "n div 2 < 2 ^ bit_length_nat (n div 2)" by simp
    then have "n < 2 * 2 ^ bit_length_nat (n div 2)" by linarith
    with False show ?thesis by (simp add: bit_length_nat.simps [of n])
  qed
qed

lemma bit_length_nat_least: "n < 2 ^ m \<Longrightarrow> bit_length_nat n \<le> m"
proof (induction n arbitrary: m rule: bit_length_nat.induct)
  case (1 n)
  show ?case
  proof (cases "n = 0")
    case True
    then show ?thesis by (simp add: bit_length_nat.simps)
  next
    case False
    with "1.prems" obtain m' where m: "m = Suc m'" by (cases m) auto
    with "1.prems" have "n div 2 < 2 ^ m'" by auto
    with "1.IH" False have "bit_length_nat (n div 2) \<le> m'" by simp
    with False m show ?thesis by (simp add: bit_length_nat.simps [of n])
  qed
qed

lemma bit_length_nat_pow2: "bit_length_nat (2 ^ k - 1) = k"
proof (rule antisym)
  show "bit_length_nat (2 ^ k - 1) \<le> k" by (rule bit_length_nat_least) simp
  have "2 ^ k - 1 < (2 :: nat) ^ bit_length_nat (2 ^ k - 1)" by (rule bit_length_nat_upper)
  then have "(2 :: nat) ^ k \<le> 2 ^ bit_length_nat (2 ^ k - 1)" by linarith
  then show "k \<le> bit_length_nat (2 ^ k - 1)" by simp
qed

lemma log2_int_round_up:
  assumes "0 \<le> sz"
  shows "\<exists>l. log2_int sz False = Inr l \<and> sz \<le> 2 ^ l \<and> (\<forall>m. sz \<le> 2 ^ m \<longrightarrow> l \<le> m)"
proof (cases "sz = 0")
  case True
  then show ?thesis by (auto simp: log2_int_def)
next
  case False
  with assms have pos: "1 \<le> sz" by simp
  define l where "l = bit_length_nat (nat (sz - 1))"
  have l: "log2_int sz False = Inr l"
    using False pos by (simp add: log2_int_def bit_length_def l_def)
  have "nat (sz - 1) < 2 ^ l" unfolding l_def by (rule bit_length_nat_upper)
  then have "sz - 1 < 2 ^ l" using pos by (simp add: nat_less_iff)
  then have up: "sz \<le> 2 ^ l" by simp
  have "l \<le> m" if "sz \<le> 2 ^ m" for m
  proof -
    from that have "sz - 1 < 2 ^ m" by simp
    then have "nat (sz - 1) < 2 ^ m" using pos by (simp add: nat_less_iff)
    then show ?thesis unfolding l_def by (rule bit_length_nat_least)
  qed
  with l up show ?thesis by blast
qed

lemma log2_int_words: "log2_int (drop_bit 2 ((2 :: int) ^ l)) True = Inr (l - 2)"
proof (cases "l < 2")
  case True
  then have "l = 0 \<or> l = 1" by auto
  then show ?thesis by (auto simp: log2_int_def drop_bit_eq_div)
next
  case False
  then obtain k where k: "l = k + 2" by (metis add.commute le_add_diff_inverse not_less)
  have d: "drop_bit 2 ((2 :: int) ^ l) = 2 ^ k"
    by (simp add: k drop_bit_eq_div power_add)
  have "nat ((2 :: int) ^ k - 1) = 2 ^ k - 1"
    by (simp add: nat_diff_distrib nat_power_eq)
  then have "bit_length ((2 :: int) ^ k - 1) = k"
    using bit_length_nat_pow2 [of k] by (simp add: bit_length_def)
  then have "log2_int (2 ^ k) True = Inr k" by (simp add: log2_int_def)
  then show ?thesis unfolding d by (simp add: k)
qed

lemma aligned_iff_dvd: "(x AND ((2 :: int) ^ l - 1) \<noteq> 0) = (\<not> 2 ^ l dvd x)"
proof -
  have "x AND ((2 :: int) ^ l - 1) = x mod 2 ^ l"
    by (simp add: take_bit_eq_mod [symmetric] take_bit_eq_mask mask_eq_exp_minus_1)
  then show ?thesis by (simp add: dvd_eq_mod_eq_0)
qed

lemma words_aligned:
  assumes "(2 :: int) ^ l dvd x"
  shows "2 ^ (l - 2) dvd drop_bit 2 x"
proof (cases "l < 2")
  case True
  then show ?thesis by simp
next
  case False
  then obtain k where k: "l = k + 2" by (metis add.commute le_add_diff_inverse not_less)
  from assms obtain c where "x = 2 ^ l * c" by (auto simp: dvd_def)
  then have "x = 4 * (2 ^ k * c)" by (simp add: k power_add)
  then have "drop_bit 2 x = 2 ^ k * c" by (simp add: drop_bit_eq_div)
  then show ?thesis by (simp add: k)
qed

lemma slice_range:
  assumes "(2 :: int) ^ k dvd o2"
  shows "(slice_to_last a k = drop_bit k o2) =
         (o2 \<le> take_bit (nbits a - 1) (sig_value a) \<and>
          take_bit (nbits a - 1) (sig_value a) < o2 + 2 ^ k)"
proof -
  define v where "v = take_bit (nbits a - 1) (sig_value a)"
  from assms obtain q where q: "o2 = 2 ^ k * q" by (auto simp: dvd_def)
  have "slice_to_last a k = drop_bit k v"
    by (simp add: slice_to_last_def v_def drop_bit_take_bit)
  also have "\<dots> = v div 2 ^ k" by (simp add: drop_bit_eq_div)
  finally have s: "slice_to_last a k = v div 2 ^ k" .
  have o: "drop_bit k o2 = q" by (simp add: q drop_bit_eq_div)
  have p: "(0 :: int) < 2 ^ k" by simp
  have "(v div 2 ^ k = q) = (2 ^ k * q \<le> v \<and> v < 2 ^ k * q + 2 ^ k)"
  proof
    assume e: "v div 2 ^ k = q"
    have "2 ^ k * (v div 2 ^ k) + v mod 2 ^ k = v" by (rule mult_div_mod_eq)
    then have "2 ^ k * q + v mod 2 ^ k = v" unfolding e .
    moreover have "0 \<le> v mod 2 ^ k" "v mod 2 ^ k < 2 ^ k" using p by simp_all
    ultimately show "2 ^ k * q \<le> v \<and> v < 2 ^ k * q + 2 ^ k" by linarith
  next
    assume b: "2 ^ k * q \<le> v \<and> v < 2 ^ k * q + 2 ^ k"
    define r where "r = v - 2 ^ k * q"
    from b have "0 \<le> r" "r < 2 ^ k" by (simp_all add: r_def)
    moreover have "v = q * 2 ^ k + r" by (simp add: r_def)
    ultimately show "v div 2 ^ k = q" using p by simp
  qed
  with s o show ?thesis by (simp add: q v_def)
qed


lemma decoder_unfold:
  assumes "origin r = Some org" and "size_r r = Some sz" and "log2_int sz False = Inr l"
    and "origin1 = org AND NOT 0x80000000"
  shows "decoder r =
    (if origin1 AND (2 ^ l - 1) \<noteq> 0 then Inl AlignmentError
     else Inr (\<lambda>a. case log2_int (drop_bit 2 (2 ^ l)) True of
                      Inl e \<Rightarrow> Inl e
                    | Inr k \<Rightarrow> Inr (slice_to_last a k = drop_bit k (drop_bit 2 origin1))))"
  unfolding decoder_def Let_def
  by (simp only: assms option.case sum.case)

text \<open>The region of the spec's decoder example: origin 0x10000000, size 0x1000.\<close>

definition window_region :: SoCRegion where
  "window_region =
     \<lparr>origin = Some 0x10000000, size_r = Some 0x1000, cached = True, linker = False\<rparr>"

lemma window_decoder:
  "decoder window_region = Inr (\<lambda>a. Inr (slice_to_last a 10 = 0x10000))"
proof -
  have o: "origin window_region = Some 0x10000000" and s: "size_r window_region = Some 0x1000"
    by (simp_all add: window_region_def)
  have l: "log2_int 0x1000 False = Inr 12"
    using bit_length_nat_pow2 [of 12] by (simp add: log2_int_def bit_length_def)
  have a: "(0x10000000 :: int) = 0x10000000 AND NOT 0x80000000"
    by (simp add: bit_eq_iff bit_simps)
  have k: "log2_int (drop_bit 2 ((2 :: int) ^ 12)) True = Inr 10"
    using log2_int_words [of 12] by simp
  have d: "(2 :: int) ^ 12 dvd 0x10000000" by simp
  have v: "drop_bit 10 (drop_bit 2 (0x10000000 :: int)) = 0x10000"
    by (simp add: drop_bit_eq_div)
  show ?thesis
    unfolding decoder_unfold [OF o s l a] aligned_iff_dvd
    using d by (simp only: k v not_not if_False sum.case simp_thms if_True)
qed

text \<open>
  C4 as stated fails: the predicate does not compare the top bit of the address. For the
  region above the word window is 0x04000000 to 0x040003FF and \<open>log2\<close> of the size in words
  is 10. On a 30-bit address the predicate accepts 0x24000000, whose bits above bit 10 are
  0x90000 while those of the origin in words are 0x10000.
\<close>

theorem decoder_top_bit_counterexample:
  "decode window_region \<lparr>nbits = 30, sig_value = 0x24000000\<rparr> = Inr True \<and>
   drop_bit 10 (0x24000000 :: int) = 0x90000 \<and>
   drop_bit 10 (drop_bit 2 (0x10000000 :: int)) = 0x10000"
  by (simp add: decode_def window_decoder slice_to_last_def drop_bit_eq_div take_bit_eq_mod)

text \<open>
  C4, amended. For a region with origin and size set (the size not negative), \<open>decoder\<close>
  rounds the size up to the least power of two \<open>2 ^ l\<close> at or above it and fails with the
  alignment error exactly when the origin with bit 31 cleared is not a multiple of
  \<open>2 ^ l\<close>. Otherwise it returns a predicate that accepts a word address exactly when the
  bits of the address from \<open>l - 2\<close> up to, but not including, its top bit equal the origin
  in words shifted right by \<open>l - 2\<close>: the address without its top bit lies in the window
  of \<open>2 ^ (l - 2)\<close> words that starts at the origin in words.
\<close>

theorem decoder_range_match:
  assumes "origin r = Some org" and "size_r r = Some sz" and "0 \<le> sz"
  shows "\<exists>l. sz \<le> 2 ^ l \<and> (\<forall>m. sz \<le> 2 ^ m \<longrightarrow> l \<le> m) \<and>
     (if \<not> 2 ^ l dvd (org AND NOT 0x80000000) then decoder r = Inl AlignmentError
      else \<exists>p. decoder r = Inr p \<and>
        (\<forall>a. p a = Inr (slice_to_last a (l - 2) =
                          drop_bit (l - 2) (drop_bit 2 (org AND NOT 0x80000000))) \<and>
             p a = Inr (drop_bit 2 (org AND NOT 0x80000000)
                          \<le> take_bit (nbits a - 1) (sig_value a) \<and>
                        take_bit (nbits a - 1) (sig_value a)
                          < drop_bit 2 (org AND NOT 0x80000000) + 2 ^ (l - 2))))"
proof -
  from log2_int_round_up [OF assms(3)] obtain l where
    l: "log2_int sz False = Inr l" and up: "sz \<le> 2 ^ l"
    and least: "\<forall>m. sz \<le> 2 ^ m \<longrightarrow> l \<le> m"
    by blast
  define origin1 where "origin1 = org AND NOT 0x80000000"
  show ?thesis
  proof (cases "2 ^ l dvd origin1")
    case False
    have "decoder r = Inl AlignmentError"
      unfolding decoder_unfold [OF assms(1,2) l origin1_def]
      using False by (simp add: aligned_iff_dvd)
    with False up least show ?thesis
      unfolding origin1_def by (intro exI [of _ l]) simp
  next
    case True
    define p where
      "p = (\<lambda>a. Inr (slice_to_last a (l - 2) = drop_bit (l - 2) (drop_bit 2 origin1))
              :: error + bool)"
    have d: "decoder r = Inr p"
      unfolding decoder_unfold [OF assms(1,2) l origin1_def] p_def
      using True by (simp add: aligned_iff_dvd log2_int_words)
    have w: "2 ^ (l - 2) dvd drop_bit 2 origin1" using True by (rule words_aligned)
    have "p a = Inr (drop_bit 2 origin1 \<le> take_bit (nbits a - 1) (sig_value a) \<and>
                 take_bit (nbits a - 1) (sig_value a) < drop_bit 2 origin1 + 2 ^ (l - 2))" for a
      unfolding p_def slice_range [OF w] ..
    moreover have "p a = Inr (slice_to_last a (l - 2) =
                     drop_bit (l - 2) (drop_bit 2 origin1))" for a
      by (simp add: p_def)
    ultimately show ?thesis
      using True up least d unfolding origin1_def by (intro exI [of _ l]) auto
  qed
qed

text \<open>
  The spec's example: the window is accepted from its first to its last word, and the
  addresses one full size above and below its start are rejected.
\<close>

theorem decoder_range_match_witness:
  "decode window_region \<lparr>nbits = 30, sig_value = 0x04000000\<rparr> = Inr True \<and>
   decode window_region \<lparr>nbits = 30, sig_value = 0x040003FF\<rparr> = Inr True \<and>
   decode window_region \<lparr>nbits = 30, sig_value = 0x04000400\<rparr> = Inr False \<and>
   decode window_region \<lparr>nbits = 30, sig_value = 0x03FFFC00\<rparr> = Inr False"
proof -
  have o: "origin window_region = Some 0x10000000" and s: "size_r window_region = Some 0x1000"
    by (simp_all add: window_region_def)
  have a: "(0x10000000 :: int) AND NOT 0x80000000 = 0x10000000"
    by (simp add: bit_eq_iff bit_simps)
  from decoder_range_match [OF o s] obtain l where
    up: "(0x1000 :: int) \<le> 2 ^ l" and least: "\<forall>m. (0x1000 :: int) \<le> 2 ^ m \<longrightarrow> l \<le> m"
    and c: "if \<not> 2 ^ l dvd ((0x10000000 :: int) AND NOT 0x80000000)
      then decoder window_region = Inl AlignmentError
      else \<exists>p. decoder window_region = Inr p \<and>
        (\<forall>a. p a = Inr (slice_to_last a (l - 2) =
                          drop_bit (l - 2) (drop_bit 2 ((0x10000000 :: int) AND NOT 0x80000000))) \<and>
             p a = Inr (drop_bit 2 ((0x10000000 :: int) AND NOT 0x80000000)
                          \<le> take_bit (nbits a - 1) (sig_value a) \<and>
                        take_bit (nbits a - 1) (sig_value a)
                          < drop_bit 2 ((0x10000000 :: int) AND NOT 0x80000000) + 2 ^ (l - 2)))"
    by auto
  have "l \<le> 12" using least by simp
  moreover have "12 \<le> l"
  proof (rule ccontr)
    assume "\<not> 12 \<le> l"
    then have "l \<le> 11" by simp
    then have "(2 :: int) ^ l \<le> 2 ^ 11" by (rule power_increasing) simp
    with up show False by simp
  qed
  ultimately have l: "l = 12" by simp
  have dv: "(2 :: int) ^ 12 dvd 0x10000000" by simp
  from c obtain p where p: "decoder window_region = Inr p"
    and r: "\<And>a. p a = Inr (0x04000000 \<le> take_bit (nbits a - 1) (sig_value a) \<and>
                      take_bit (nbits a - 1) (sig_value a) < 0x04000000 + 2 ^ 10)"
    unfolding l a using dv by (auto simp: drop_bit_eq_div)
  show ?thesis
    by (simp add: decode_def p r)
qed

end
